theory Spec2Isabelle
  imports
    Complex_Main
    "HOL-Library.AList"
    "HOL-Library.Char_ord"
    "HOL-Library.List_Lexorder"
begin

section \<open>The balance-forecast engine of \<^verbatim>\<open>src/lib/forecast.ts\<close>\<close>

text \<open>
  The development follows \<^verbatim>\<open>src/lib/forecast.ts\<close> function by function.  What the
  TypeScript does beyond returning a value is explicit here: a \<^verbatim>\<open>throw\<close> is the left
  summand of a result type, the mutated \<^verbatim>\<open>priorBalances\<close> object is a map that every loop
  passes on, and a \<^verbatim>\<open>for\<close> loop is a recursive function over the list it walks.

  Conventions for the JavaScript platform:
  \<^item> a \<^verbatim>\<open>number\<close> that holds money is an exact rational; rounding of doubles, \<^verbatim>\<open>NaN\<close> and
    the infinities are not represented for amounts and balances;
  \<^item> a time value (what \<^verbatim>\<open>Date.prototype.getTime\<close> returns) is an \<open>int\<close> of milliseconds
    since the epoch, and a \<^verbatim>\<open>Date\<close> is an \<open>int option\<close> with \<open>None\<close> for the invalid date
    (time value \<^verbatim>\<open>NaN\<close>);
  \<^item> a timestamp string is represented by what \<^verbatim>\<open>new Date(s)\<close> makes of it: the instant it
    denotes, or \<open>Malformed\<close>.  The string that \<^verbatim>\<open>toISOString\<close> prints for an instant is
    that instant again;
  \<^item> strings are compared as lists of characters in code order (the default order of
    \<^verbatim>\<open>Array.prototype.sort\<close> on ASCII strings);
  \<^item> an object used as a dictionary is an association list in insertion order, written with
    \<open>AList.update\<close> (an existing key keeps its place, a new key goes last) and read with
    \<open>map_of\<close>.  Account slugs that name a property of \<^verbatim>\<open>Object.prototype\<close> and slugs that
    are array indices are outside the model.
\<close>

subsection \<open>Data model (lines 1 to 77)\<close>

type_synonym accountSlug = string

datatype timestamp = Instant int | Malformed

record occurrence =
  occ_accountSlug :: accountSlug
  occ_amount :: rat
  occ_timestamp :: timestamp

record anchorCheckpoint =
  cp_id :: string
  cp_accountSlug :: accountSlug
  cp_balance :: rat
  cp_timestamp :: timestamp

datatype anchorSource = Checkpoint | Rollforward | Initial

record anchorMetadata =
  anchor_balance :: rat
  anchor_timestamp :: timestamp
  anchor_source :: anchorSource
  checkpointId :: "string option"
  isInterim :: bool

text \<open>A week key is the string \<^verbatim>\<open>YYYY-MM-DD\<close> of a date.  It is kept as the day number
  (days since 1970-01-01) of that date: for the years 0000 to 9999, which is where every
  four-digit month identifier lands, the ten-character strings and the day numbers
  correspond one to one and in the same order.\<close>

datatype isoDate = IsoDate (dayNumber: int)

record endingBalanceCell =
  ym :: string
  accountSlug :: accountSlug
  beginningBalance :: rat
  balance :: rat
  netAfterAnchor :: rat
  anchor :: anchorMetadata

record weeklyBalanceCell = endingBalanceCell +
  weekKey :: isoDate

type_synonym monthlyBalances = "(string \<times> (accountSlug \<times> endingBalanceCell) list) list"

type_synonym weeklyBalances =
  "(string \<times> (isoDate \<times> (accountSlug \<times> weeklyBalanceCell) list) list) list"

record forecastResult =
  fr_months :: "string list"
  fr_accounts :: "accountSlug list"
  fr_endingBalances :: monthlyBalances
  fr_weeklyBalances :: weeklyBalances

record buildForecastParams =
  bp_months :: "string list"
  bp_occurrences :: "occurrence list"
  bp_priorEndingBalances :: "(accountSlug \<times> rat) list"
  bp_checkpoints :: "anchorCheckpoint list"

text \<open>The source throws \<^verbatim>\<open>Error\<close> objects told apart by their message; the constructors
  carry the names the specification gives them.  The period named in a message is kept, the
  account and the two amounts are not.\<close>

datatype error =
    TimestampParseError
  | InvalidPeriodIdentifier string
  | RangeError
  | ContinuityViolation string
  | WeeklyContinuityViolation isoDate
  | ReconciliationViolation string

subsection \<open>The platform: calendar arithmetic of \<^verbatim>\<open>Date\<close>\<close>

definition msPerDay :: int where
  "msPerDay = 86400000"

definition DayFromYear :: "int \<Rightarrow> int" where
  "DayFromYear y =
     365 * (y - 1970) + (y - 1969) div 4 - (y - 1901) div 100 + (y - 1601) div 400"

definition InLeapYear :: "int \<Rightarrow> bool" where
  "InLeapYear y \<longleftrightarrow> y mod 4 = 0 \<and> (y mod 100 \<noteq> 0 \<or> y mod 400 = 0)"

definition monthLengths :: "int \<Rightarrow> int list" where
  "monthLengths y = [31, if InLeapYear y then 29 else 28, 31, 30, 31, 30, 31, 31, 30, 31, 30, 31]"

text \<open>\<open>MakeDay year month date\<close> of ECMAScript for integral arguments: the month index may
  lie outside 0..11 and carries into the year.\<close>

definition MakeDay :: "int \<Rightarrow> int \<Rightarrow> int \<Rightarrow> int" where
  "MakeDay year month dt =
     (let ym' = year + month div 12;
          mn = month mod 12
      in DayFromYear ym' + sum_list (take (nat mn) (monthLengths ym')) + dt - 1)"

definition TimeClip :: "int \<Rightarrow> int option" where
  "TimeClip t = (if \<bar>t\<bar> > 8640000000000000 then None else Some t)"

text \<open>\<^verbatim>\<open>new Date(Date.UTC(year, month, 1))\<close>: a year from 0 to 99 means 1900 + year.\<close>

definition Date_UTC :: "int \<Rightarrow> int \<Rightarrow> int option" where
  "Date_UTC year month =
     (let yr = (if 0 \<le> year \<and> year \<le> 99 then 1900 + year else year)
      in TimeClip (MakeDay yr month 1 * msPerDay))"

text \<open>\<^verbatim>\<open>getUTCDay\<close>: 0 is Sunday; 1970-01-01 was a Thursday.\<close>

definition getUTCDay :: "int \<Rightarrow> int" where
  "getUTCDay t = (t div msPerDay + 4) mod 7"

text \<open>\<^verbatim>\<open>d.setUTCDate(d.getUTCDate() + k)\<close> moves a valid date by \<open>k\<close> whole days and keeps
  the time of day; the result is clipped like every time value.\<close>

definition addUTCDays :: "int \<Rightarrow> int \<Rightarrow> int option" where
  "addUTCDays t k = TimeClip (t + k * msPerDay)"

subsection \<open>The platform: \<^verbatim>\<open>String.prototype.split\<close> and \<^verbatim>\<open>Number\<close>\<close>

fun splitOn :: "char \<Rightarrow> string \<Rightarrow> string list" where
  "splitOn sep [] = [[]]"
| "splitOn sep (c # cs) =
     (if c = sep then [] # splitOn sep cs
      else (case splitOn sep cs of
              [] \<Rightarrow> [[c]]
            | piece # pieces \<Rightarrow> (c # piece) # pieces))"

definition isDigit :: "char \<Rightarrow> bool" where
  "isDigit c \<longleftrightarrow> c \<in> set ''0123456789''"

definition digitValue :: "char \<Rightarrow> int" where
  "digitValue c = int (of_char c) - 48"

text \<open>\<^verbatim>\<open>Number(s)\<close> on the strings of decimal digits: the number they write, 0 for the empty
  string.  \<open>None\<close> is \<^verbatim>\<open>NaN\<close>.  The other numeric literals of JavaScript (a sign, a fraction,
  an exponent, a radix prefix, \<^verbatim>\<open>Infinity\<close>, white space around the literal) are not
  modelled: the theorems on month identifiers are stated for fields made of digits.\<close>

definition decimalValue :: "string \<Rightarrow> int" where
  "decimalValue s = foldl (\<lambda>n c. 10 * n + digitValue c) 0 s"

definition Number_js :: "string \<Rightarrow> int option" where
  "Number_js s = (if list_all isDigit s then Some (decimalValue s) else None)"

subsection \<open>Small helpers (lines 79 to 132)\<close>

definition toUtcDate :: "timestamp \<Rightarrow> error + int" where
  "toUtcDate ts = (case ts of Instant t \<Rightarrow> Inr t | Malformed \<Rightarrow> Inl TimestampParseError)"

text \<open>\<^verbatim>\<open>const [year, month] = ym.split('-').map(Number)\<close> followed by the guard
  \<^verbatim>\<open>if (!year || !month) throw\<close>: a field that is missing, \<^verbatim>\<open>NaN\<close> or 0 is rejected.\<close>

definition yearAndMonth :: "string \<Rightarrow> error + (int \<times> int)" where
  "yearAndMonth s =
     (case map Number_js (splitOn CHR ''-'' s) of
        Some year # Some month # _ \<Rightarrow>
          if year = 0 \<or> month = 0 then Inl (InvalidPeriodIdentifier s) else Inr (year, month)
      | _ \<Rightarrow> Inl (InvalidPeriodIdentifier s))"

definition startOfMonth :: "string \<Rightarrow> error + int option" where
  "startOfMonth s =
     (case yearAndMonth s of
        Inl e \<Rightarrow> Inl e
      | Inr (year, month) \<Rightarrow> Inr (Date_UTC year (month - 1)))"

definition monthEndExclusive :: "string \<Rightarrow> error + int option" where
  "monthEndExclusive s =
     (case yearAndMonth s of
        Inl e \<Rightarrow> Inl e
      | Inr (year, month) \<Rightarrow> Inr (Date_UTC year month))"

text \<open>\<^verbatim>\<open>toISOString\<close> throws a \<^verbatim>\<open>RangeError\<close> on the invalid date.\<close>

definition toIsoDate :: "int option \<Rightarrow> error + isoDate" where
  "toIsoDate d = (case d of None \<Rightarrow> Inl RangeError | Some t \<Rightarrow> Inr (IsoDate (t div msPerDay)))"

definition toIsoTimestamp :: "int option \<Rightarrow> error + timestamp" where
  "toIsoTimestamp d = (case d of None \<Rightarrow> Inl RangeError | Some t \<Rightarrow> Inr (Instant t))"

definition clonePriorBalances :: "(accountSlug \<times> rat) list \<Rightarrow> (accountSlug \<rightharpoonup> rat)" where
  "clonePriorBalances source = map_of source"

definition listAccounts ::
  "occurrence list \<Rightarrow> anchorCheckpoint list \<Rightarrow> (accountSlug \<times> rat) list \<Rightarrow> accountSlug list"
where
  "listAccounts occurrences checkpoints priorEndingBalances =
     sort (remdups (map occ_accountSlug occurrences @ map cp_accountSlug checkpoints
                    @ map fst priorEndingBalances))"

subsection \<open>Window filters (lines 134 to 162)\<close>

text \<open>A comparison with the time value of an invalid date is false.\<close>

definition inWindow :: "int \<Rightarrow> int option \<Rightarrow> int option \<Rightarrow> bool" where
  "inWindow ts windowStart windowEnd =
     (case (windowStart, windowEnd) of
        (Some startMs, Some endMs) \<Rightarrow> ts \<ge> startMs \<and> ts < endMs
      | _ \<Rightarrow> False)"

fun filterOccurrencesForWindow ::
  "occurrence list \<Rightarrow> accountSlug \<Rightarrow> int option \<Rightarrow> int option \<Rightarrow> error + occurrence list"
where
  "filterOccurrencesForWindow [] account windowStart windowEnd = Inr []"
| "filterOccurrencesForWindow (occ # rest) account windowStart windowEnd =
     (if occ_accountSlug occ \<noteq> account
      then filterOccurrencesForWindow rest account windowStart windowEnd
      else (case toUtcDate (occ_timestamp occ) of
              Inl e \<Rightarrow> Inl e
            | Inr ts \<Rightarrow>
                (case filterOccurrencesForWindow rest account windowStart windowEnd of
                   Inl e \<Rightarrow> Inl e
                 | Inr kept \<Rightarrow>
                     Inr (if inWindow ts windowStart windowEnd then occ # kept else kept))))"

fun filterCheckpointsForWindow ::
  "anchorCheckpoint list \<Rightarrow> accountSlug \<Rightarrow> int option \<Rightarrow> int option
     \<Rightarrow> error + anchorCheckpoint list"
where
  "filterCheckpointsForWindow [] account windowStart windowEnd = Inr []"
| "filterCheckpointsForWindow (cp # rest) account windowStart windowEnd =
     (if cp_accountSlug cp \<noteq> account
      then filterCheckpointsForWindow rest account windowStart windowEnd
      else (case toUtcDate (cp_timestamp cp) of
              Inl e \<Rightarrow> Inl e
            | Inr ts \<Rightarrow>
                (case filterCheckpointsForWindow rest account windowStart windowEnd of
                   Inl e \<Rightarrow> Inl e
                 | Inr kept \<Rightarrow>
                     Inr (if inWindow ts windowStart windowEnd then cp # kept else kept))))"

text \<open>\<^verbatim>\<open>sortIsoStrings\<close>: \<^verbatim>\<open>Array.prototype.sort\<close> is stable, and so is \<open>sort_key\<close>.  The
  comparator parses both timestamps, so with two or more items a malformed one throws; with
  fewer the comparator never runs.  \<open>msOf\<close> reads a timestamp already known to parse.\<close>

definition msOf :: "timestamp \<Rightarrow> int" where
  "msOf ts = (case ts of Instant t \<Rightarrow> t | Malformed \<Rightarrow> 0)"

definition sortIsoStrings :: "anchorCheckpoint list \<Rightarrow> error + anchorCheckpoint list" where
  "sortIsoStrings items =
     (if length items < 2 then Inr items
      else if list_ex (\<lambda>cp. cp_timestamp cp = Malformed) items then Inl TimestampParseError
      else Inr (sort_key (\<lambda>cp. msOf (cp_timestamp cp)) items))"

subsection \<open>Anchor and net activity of one window and account\<close>

text \<open>Lines 182 to 219 of \<^verbatim>\<open>computeEndingBalances\<close> and lines 292 to 334 of
  \<^verbatim>\<open>computeWeeklyBalances\<close> are the same text up to the name of the window; they are
  translated once, with the window as argument.\<close>

fun keepAfterAnchor :: "int \<Rightarrow> anchorSource \<Rightarrow> occurrence list \<Rightarrow> error + occurrence list" where
  "keepAfterAnchor anchorTime source [] = Inr []"
| "keepAfterAnchor anchorTime source (occ # rest) =
     (case toUtcDate (occ_timestamp occ) of
        Inl e \<Rightarrow> Inl e
      | Inr occTime \<Rightarrow>
          (case keepAfterAnchor anchorTime source rest of
             Inl e \<Rightarrow> Inl e
           | Inr kept \<Rightarrow>
               Inr (if occTime < anchorTime then kept
                    else if source = Checkpoint \<and> occTime = anchorTime then kept
                    else occ # kept)))"

definition resolveAnchor ::
  "anchorCheckpoint list \<Rightarrow> (accountSlug \<rightharpoonup> rat) \<Rightarrow> accountSlug \<Rightarrow> int option \<Rightarrow> int option
     \<Rightarrow> error + anchorMetadata"
where
  "resolveAnchor checkpoints priorBalances account windowStart windowEnd =
     (case filterCheckpointsForWindow checkpoints account windowStart windowEnd of
        Inl e \<Rightarrow> Inl e
      | Inr inWindowCheckpoints \<Rightarrow>
     (case sortIsoStrings inWindowCheckpoints of
        Inl e \<Rightarrow> Inl e
      | Inr accountCheckpoints \<Rightarrow>
     (let hadPriorBalance = (priorBalances account \<noteq> None);
          priorBalance = (case priorBalances account of Some b \<Rightarrow> b | None \<Rightarrow> 0)
      in
     (case toIsoTimestamp windowStart of
        Inl e \<Rightarrow> Inl e
      | Inr startTimestamp \<Rightarrow>
          if length accountCheckpoints > 0
          then (let latestCheckpoint = last accountCheckpoints in
                (case toUtcDate (cp_timestamp latestCheckpoint) of
                   Inl e \<Rightarrow> Inl e
                 | Inr checkpointTimestamp \<Rightarrow>
                     Inr \<lparr> anchor_balance = cp_balance latestCheckpoint,
                           anchor_timestamp = cp_timestamp latestCheckpoint,
                           anchor_source = Checkpoint,
                           checkpointId = Some (cp_id latestCheckpoint),
                           isInterim = (case windowStart of
                                          Some startMs \<Rightarrow> checkpointTimestamp > startMs
                                        | None \<Rightarrow> False) \<rparr>))
          else Inr \<lparr> anchor_balance = priorBalance,
                     anchor_timestamp = startTimestamp,
                     anchor_source = (if hadPriorBalance then Rollforward else Initial),
                     checkpointId = None,
                     isInterim = False \<rparr>))))"

definition netAfterAnchorOf :: "anchorMetadata \<Rightarrow> occurrence list \<Rightarrow> error + rat" where
  "netAfterAnchorOf anc accountOccurrences =
     (case toUtcDate (anchor_timestamp anc) of
        Inl e \<Rightarrow> Inl e
      | Inr anchorTime \<Rightarrow>
          (case keepAfterAnchor anchorTime (anchor_source anc) accountOccurrences of
             Inl e \<Rightarrow> Inl e
           | Inr kept \<Rightarrow> Inr (foldl (\<lambda>sum occ. sum + occ_amount occ) 0 kept)))"

text \<open>The body of the loop over accounts up to \<^verbatim>\<open>endingBalance\<close>: the anchor and the net
  activity after it, in the order in which the source evaluates (and may throw).\<close>

definition anchorAndNet ::
  "occurrence list \<Rightarrow> anchorCheckpoint list \<Rightarrow> (accountSlug \<rightharpoonup> rat) \<Rightarrow> accountSlug
     \<Rightarrow> int option \<Rightarrow> int option \<Rightarrow> error + (anchorMetadata \<times> rat)"
where
  "anchorAndNet occurrences checkpoints priorBalances account windowStart windowEnd =
     (case filterOccurrencesForWindow occurrences account windowStart windowEnd of
        Inl e \<Rightarrow> Inl e
      | Inr accountOccurrences \<Rightarrow>
     (case resolveAnchor checkpoints priorBalances account windowStart windowEnd of
        Inl e \<Rightarrow> Inl e
      | Inr anc \<Rightarrow>
     (case netAfterAnchorOf anc accountOccurrences of
        Inl e \<Rightarrow> Inl e
      | Inr net \<Rightarrow> Inr (anc, net))))"

subsection \<open>\<^verbatim>\<open>computeEndingBalances\<close> (lines 164 to 237)\<close>

fun monthAccounts ::
  "occurrence list \<Rightarrow> anchorCheckpoint list \<Rightarrow> string \<Rightarrow> int option \<Rightarrow> int option
     \<Rightarrow> accountSlug list
     \<Rightarrow> (accountSlug \<times> endingBalanceCell) list \<times> (accountSlug \<rightharpoonup> rat)
     \<Rightarrow> error + ((accountSlug \<times> endingBalanceCell) list \<times> (accountSlug \<rightharpoonup> rat))"
where
  "monthAccounts occurrences checkpoints m monthStart monthEnd [] st = Inr st"
| "monthAccounts occurrences checkpoints m monthStart monthEnd (account # accounts)
       (monthCells, priorBalances) =
     (case anchorAndNet occurrences checkpoints priorBalances account monthStart monthEnd of
        Inl e \<Rightarrow> Inl e
      | Inr (anc, net) \<Rightarrow>
          (let endingBalance = anchor_balance anc + net
           in monthAccounts occurrences checkpoints m monthStart monthEnd accounts
                (AList.update account
                   \<lparr> ym = m, accountSlug = account, beginningBalance = anchor_balance anc,
                     balance = endingBalance, netAfterAnchor = net, anchor = anc \<rparr>
                   monthCells,
                 priorBalances(account \<mapsto> endingBalance))))"

fun monthsLoop ::
  "occurrence list \<Rightarrow> anchorCheckpoint list \<Rightarrow> accountSlug list \<Rightarrow> string list
     \<Rightarrow> monthlyBalances \<times> (accountSlug \<rightharpoonup> rat)
     \<Rightarrow> error + (monthlyBalances \<times> (accountSlug \<rightharpoonup> rat))"
where
  "monthsLoop occurrences checkpoints accounts [] st = Inr st"
| "monthsLoop occurrences checkpoints accounts (m # orderedMonths) (monthlyResult, priorBalances) =
     (case startOfMonth m of
        Inl e \<Rightarrow> Inl e
      | Inr monthStart \<Rightarrow>
     (case monthEndExclusive m of
        Inl e \<Rightarrow> Inl e
      | Inr monthEnd \<Rightarrow>
     (case monthAccounts occurrences checkpoints m monthStart monthEnd accounts
             ([], priorBalances) of
        Inl e \<Rightarrow> Inl e
      | Inr (monthCells, priorBalances') \<Rightarrow>
          monthsLoop occurrences checkpoints accounts orderedMonths
            (AList.update m monthCells monthlyResult, priorBalances'))))"

definition computeEndingBalances ::
  "string list \<Rightarrow> occurrence list \<Rightarrow> (accountSlug \<times> rat) list \<Rightarrow> anchorCheckpoint list
     \<Rightarrow> error + monthlyBalances"
where
  "computeEndingBalances months occurrences priorEndingBalances checkpoints =
     (let orderedMonths = sort months;
          accounts = listAccounts occurrences checkpoints priorEndingBalances;
          priorBalances = clonePriorBalances priorEndingBalances
      in (case monthsLoop occurrences checkpoints accounts orderedMonths ([], priorBalances) of
            Inl e \<Rightarrow> Inl e
          | Inr (monthlyResult, _) \<Rightarrow> Inr monthlyResult))"

subsection \<open>\<^verbatim>\<open>computeWeeksInMonth\<close> (lines 239 to 270)\<close>

record weekWindow =
  week_start :: int
  week_end :: int
  week_weekKey :: isoDate

text \<open>The \<^verbatim>\<open>while\<close> loop, from a valid cursor and a valid month end.  When a
  \<^verbatim>\<open>setUTCDate\<close> leaves the range of time values, \<^verbatim>\<open>weekEnd\<close> is the invalid date, both
  comparisons with it are false, \<^verbatim>\<open>Math.min\<close> yields \<^verbatim>\<open>NaN\<close> and \<^verbatim>\<open>toIsoDate\<close> throws.\<close>

function weeksFrom :: "int \<Rightarrow> int \<Rightarrow> error + weekWindow list" where
  "weeksFrom cursor monthEnd =
     (if cursor < monthEnd
      then (case addUTCDays cursor
                   (if getUTCDay cursor = 0 then 0 else 7 - getUTCDay cursor) of
              None \<Rightarrow> Inl RangeError
            | Some weekEnd0 \<Rightarrow>
            (case (if weekEnd0 \<le> cursor then addUTCDays weekEnd0 7 else Some weekEnd0) of
              None \<Rightarrow> Inl RangeError
            | Some weekEnd \<Rightarrow>
            (case TimeClip (min (weekEnd + 24 * 60 * 60 * 1000) monthEnd) of
              None \<Rightarrow> Inl RangeError
            | Some exclusiveEnd \<Rightarrow>
            (case toIsoDate (TimeClip (exclusiveEnd - 24 * 60 * 60 * 1000)) of
              Inl e \<Rightarrow> Inl e
            | Inr key \<Rightarrow>
            (case weeksFrom exclusiveEnd monthEnd of
              Inl e \<Rightarrow> Inl e
            | Inr result \<Rightarrow>
                Inr (\<lparr> week_start = cursor, week_end = exclusiveEnd, week_weekKey = key \<rparr>
                     # result))))))
      else Inr [])"
  by pat_completeness auto
termination
proof (relation "measure (\<lambda>(cursor, monthEnd). nat (monthEnd - cursor))")
  show "wf (measure (\<lambda>(cursor, monthEnd). nat (monthEnd - cursor)))"
    by simp
next
  fix cursor monthEnd weekEnd0 weekEnd exclusiveEnd :: int and key :: isoDate
  assume lt: "cursor < monthEnd"
    and w0: "addUTCDays cursor (if getUTCDay cursor = 0 then 0 else 7 - getUTCDay cursor)
               = Some weekEnd0"
    and w: "(if weekEnd0 \<le> cursor then addUTCDays weekEnd0 7 else Some weekEnd0) = Some weekEnd"
    and ex: "TimeClip (min (weekEnd + 24 * 60 * 60 * 1000) monthEnd) = Some exclusiveEnd"
  have "0 \<le> getUTCDay cursor" "getUTCDay cursor < 7"
    by (simp_all add: getUTCDay_def)
  then have "cursor \<le> weekEnd0"
    using w0 by (auto simp: addUTCDays_def TimeClip_def msPerDay_def split: if_splits)
  then have "cursor < weekEnd"
    using w by (auto simp: addUTCDays_def TimeClip_def msPerDay_def split: if_splits)
  then have "cursor < exclusiveEnd"
    using ex lt by (auto simp: TimeClip_def split: if_splits)
  then show "((exclusiveEnd, monthEnd), (cursor, monthEnd))
               \<in> measure (\<lambda>(cursor, monthEnd). nat (monthEnd - cursor))"
    using lt by simp
qed

declare weeksFrom.simps [simp del]

definition computeWeeksInMonth :: "string \<Rightarrow> error + weekWindow list" where
  "computeWeeksInMonth s =
     (case startOfMonth s of
        Inl e \<Rightarrow> Inl e
      | Inr monthStart \<Rightarrow>
     (case monthEndExclusive s of
        Inl e \<Rightarrow> Inl e
      | Inr monthEnd \<Rightarrow>
     (case (monthStart, monthEnd) of
        (Some cursor, Some endMs) \<Rightarrow> weeksFrom cursor endMs
      | _ \<Rightarrow> Inr [])))"

subsection \<open>\<^verbatim>\<open>computeWeeklyBalances\<close> (lines 272 to 355)\<close>

fun weekAccounts ::
  "occurrence list \<Rightarrow> anchorCheckpoint list \<Rightarrow> string \<Rightarrow> weekWindow \<Rightarrow> accountSlug list
     \<Rightarrow> (accountSlug \<times> weeklyBalanceCell) list \<times> (accountSlug \<rightharpoonup> rat)
     \<Rightarrow> error + ((accountSlug \<times> weeklyBalanceCell) list \<times> (accountSlug \<rightharpoonup> rat))"
where
  "weekAccounts occurrences checkpoints m week [] st = Inr st"
| "weekAccounts occurrences checkpoints m week (account # accounts) (weekCells, priorBalances) =
     (case anchorAndNet occurrences checkpoints priorBalances account
             (Some (week_start week)) (Some (week_end week)) of
        Inl e \<Rightarrow> Inl e
      | Inr (anc, net) \<Rightarrow>
          (let endingBalance = anchor_balance anc + net
           in weekAccounts occurrences checkpoints m week accounts
                (AList.update account
                   \<lparr> ym = m, accountSlug = account, beginningBalance = anchor_balance anc,
                     balance = endingBalance, netAfterAnchor = net, anchor = anc,
                     weekKey = week_weekKey week \<rparr>
                   weekCells,
                 priorBalances(account \<mapsto> endingBalance))))"

fun weeksLoop ::
  "occurrence list \<Rightarrow> anchorCheckpoint list \<Rightarrow> string \<Rightarrow> accountSlug list \<Rightarrow> weekWindow list
     \<Rightarrow> (isoDate \<times> (accountSlug \<times> weeklyBalanceCell) list) list \<times> (accountSlug \<rightharpoonup> rat)
     \<Rightarrow> error + ((isoDate \<times> (accountSlug \<times> weeklyBalanceCell) list) list
                  \<times> (accountSlug \<rightharpoonup> rat))"
where
  "weeksLoop occurrences checkpoints m accounts [] st = Inr st"
| "weeksLoop occurrences checkpoints m accounts (week # weeks) (monthWeeks, priorBalances) =
     (case weekAccounts occurrences checkpoints m week accounts ([], priorBalances) of
        Inl e \<Rightarrow> Inl e
      | Inr (weekCells, priorBalances') \<Rightarrow>
          weeksLoop occurrences checkpoints m accounts weeks
            (AList.update (week_weekKey week) weekCells monthWeeks, priorBalances'))"

fun weeklyMonthsLoop ::
  "occurrence list \<Rightarrow> anchorCheckpoint list \<Rightarrow> accountSlug list \<Rightarrow> string list
     \<Rightarrow> weeklyBalances \<times> (accountSlug \<rightharpoonup> rat)
     \<Rightarrow> error + (weeklyBalances \<times> (accountSlug \<rightharpoonup> rat))"
where
  "weeklyMonthsLoop occurrences checkpoints accounts [] st = Inr st"
| "weeklyMonthsLoop occurrences checkpoints accounts (m # orderedMonths)
       (weeklyResult, priorBalances) =
     (case computeWeeksInMonth m of
        Inl e \<Rightarrow> Inl e
      | Inr weeks \<Rightarrow>
     (case weeksLoop occurrences checkpoints m accounts weeks ([], priorBalances) of
        Inl e \<Rightarrow> Inl e
      | Inr (monthWeeks, priorBalances') \<Rightarrow>
          weeklyMonthsLoop occurrences checkpoints accounts orderedMonths
            (AList.update m monthWeeks weeklyResult, priorBalances')))"

definition computeWeeklyBalances ::
  "string list \<Rightarrow> occurrence list \<Rightarrow> (accountSlug \<times> rat) list \<Rightarrow> anchorCheckpoint list
     \<Rightarrow> error + weeklyBalances"
where
  "computeWeeklyBalances months occurrences priorEndingBalances checkpoints =
     (let orderedMonths = sort months;
          accounts = listAccounts occurrences checkpoints priorEndingBalances;
          priorBalances = clonePriorBalances priorEndingBalances
      in (case weeklyMonthsLoop occurrences checkpoints accounts orderedMonths
                 ([], priorBalances) of
            Inl e \<Rightarrow> Inl e
          | Inr (weeklyResult, _) \<Rightarrow> Inr weeklyResult))"

subsection \<open>The continuity verifier (lines 357 to 416)\<close>

definition almostEqual :: "rat \<Rightarrow> rat \<Rightarrow> bool" where
  "almostEqual a b \<longleftrightarrow> \<bar>a - b\<bar> \<le> 1 / 100"

text \<open>The loop over \<^verbatim>\<open>Object.entries\<close> of one period's cells, the same in both verifiers
  but for the message: \<open>violation\<close> is what is thrown.\<close>

fun rollForwardCells ::
  "error \<Rightarrow> (accountSlug \<times> 'a endingBalanceCell_scheme) list \<Rightarrow> (accountSlug \<rightharpoonup> rat)
     \<Rightarrow> error + (accountSlug \<rightharpoonup> rat)"
where
  "rollForwardCells violation [] lastEnding = Inr lastEnding"
| "rollForwardCells violation ((account, cell) # entries) lastEnding =
     (case lastEnding account of
        Some expectedBeginning \<Rightarrow>
          if \<not> almostEqual (beginningBalance cell) expectedBeginning then Inl violation
          else rollForwardCells violation entries (lastEnding(account \<mapsto> balance cell))
      | None \<Rightarrow> rollForwardCells violation entries (lastEnding(account \<mapsto> balance cell)))"

text \<open>A key taken from \<^verbatim>\<open>Object.keys\<close> of an object is found in it; \<open>entriesOf\<close> is the
  lookup followed by \<^verbatim>\<open>Object.entries\<close>, with no entries for an absent key.\<close>

definition entriesOf :: "('k \<times> ('a \<times> 'b) list) list \<Rightarrow> 'k \<Rightarrow> ('a \<times> 'b) list" where
  "entriesOf obj k = (case map_of obj k of Some entries \<Rightarrow> entries | None \<Rightarrow> [])"

fun rollForwardMonths ::
  "monthlyBalances \<Rightarrow> string list \<Rightarrow> (accountSlug \<rightharpoonup> rat) \<Rightarrow> error + unit"
where
  "rollForwardMonths endingBalances [] lastEnding = Inr ()"
| "rollForwardMonths endingBalances (m # orderedMonths) lastEnding =
     (case rollForwardCells (ContinuityViolation m) (entriesOf endingBalances m) lastEnding of
        Inl e \<Rightarrow> Inl e
      | Inr lastEnding' \<Rightarrow> rollForwardMonths endingBalances orderedMonths lastEnding')"

definition assertBalanceRollForward :: "monthlyBalances \<Rightarrow> error + unit" where
  "assertBalanceRollForward endingBalances =
     rollForwardMonths endingBalances (sort (map fst endingBalances)) Map.empty"

fun rollForwardWeeks ::
  "(isoDate \<times> (accountSlug \<times> weeklyBalanceCell) list) list \<Rightarrow> isoDate list
     \<Rightarrow> (accountSlug \<rightharpoonup> rat) \<Rightarrow> error + (accountSlug \<rightharpoonup> rat)"
where
  "rollForwardWeeks weekMap [] lastEnding = Inr lastEnding"
| "rollForwardWeeks weekMap (key # weekKeys) lastEnding =
     (case rollForwardCells (WeeklyContinuityViolation key) (entriesOf weekMap key) lastEnding of
        Inl e \<Rightarrow> Inl e
      | Inr lastEnding' \<Rightarrow> rollForwardWeeks weekMap weekKeys lastEnding')"

text \<open>\<^verbatim>\<open>weekMap[lastWeekKey]?.[account]\<close>, with \<^verbatim>\<open>undefined\<close> when the month has no week.\<close>

definition lastWeekCellOf ::
  "(isoDate \<times> (accountSlug \<times> weeklyBalanceCell) list) list \<Rightarrow> isoDate list \<Rightarrow> accountSlug
     \<Rightarrow> weeklyBalanceCell option"
where
  "lastWeekCellOf weekMap weekKeys account =
     (if weekKeys = [] then None
      else (case map_of weekMap (last weekKeys) of
              None \<Rightarrow> None
            | Some weekCells \<Rightarrow> map_of weekCells account))"

fun reconcileCells ::
  "string \<Rightarrow> (isoDate \<times> (accountSlug \<times> weeklyBalanceCell) list) list \<Rightarrow> isoDate list
     \<Rightarrow> (accountSlug \<times> endingBalanceCell) list \<Rightarrow> error + unit"
where
  "reconcileCells m weekMap weekKeys [] = Inr ()"
| "reconcileCells m weekMap weekKeys ((account, monthCell) # entries) =
     (case lastWeekCellOf weekMap weekKeys account of
        Some lastWeekCell \<Rightarrow>
          if \<not> almostEqual (balance lastWeekCell) (balance monthCell)
          then Inl (ReconciliationViolation m)
          else reconcileCells m weekMap weekKeys entries
      | None \<Rightarrow> reconcileCells m weekMap weekKeys entries)"

text \<open>The week keys of one month are sorted as strings, which is the order of their days.\<close>

definition sortedWeekKeys ::
  "(isoDate \<times> (accountSlug \<times> weeklyBalanceCell) list) list \<Rightarrow> isoDate list" where
  "sortedWeekKeys weekMap = sort_key dayNumber (map fst weekMap)"

fun weeklyRollForwardMonths ::
  "weeklyBalances \<Rightarrow> monthlyBalances \<Rightarrow> string list \<Rightarrow> (accountSlug \<rightharpoonup> rat) \<Rightarrow> error + unit"
where
  "weeklyRollForwardMonths weeklyBalances endingBalances [] lastEnding = Inr ()"
| "weeklyRollForwardMonths weeklyBalances endingBalances (m # orderedMonths) lastEnding =
     (let weekMap = entriesOf weeklyBalances m;
          weekKeys = sortedWeekKeys weekMap
      in (case rollForwardWeeks weekMap weekKeys lastEnding of
            Inl e \<Rightarrow> Inl e
          | Inr lastEnding' \<Rightarrow>
          (case reconcileCells m weekMap weekKeys (entriesOf endingBalances m) of
            Inl e \<Rightarrow> Inl e
          | Inr _ \<Rightarrow>
              weeklyRollForwardMonths weeklyBalances endingBalances orderedMonths lastEnding')))"

definition assertWeeklyBalanceRollForward ::
  "weeklyBalances \<Rightarrow> monthlyBalances \<Rightarrow> error + unit" where
  "assertWeeklyBalanceRollForward weeklyBalances endingBalances =
     weeklyRollForwardMonths weeklyBalances endingBalances
       (sort (map fst weeklyBalances)) Map.empty"

subsection \<open>\<^verbatim>\<open>buildForecast\<close> (lines 418 to 435)\<close>

definition buildForecast :: "buildForecastParams \<Rightarrow> error + forecastResult" where
  "buildForecast params =
     (let months = bp_months params;
          occurrences = bp_occurrences params;
          priorEndingBalances = bp_priorEndingBalances params;
          checkpoints = bp_checkpoints params;
          orderedMonths = sort months;
          accounts = listAccounts occurrences checkpoints priorEndingBalances
      in (case computeEndingBalances orderedMonths occurrences priorEndingBalances checkpoints of
            Inl e \<Rightarrow> Inl e
          | Inr endingBalances \<Rightarrow>
          (case assertBalanceRollForward endingBalances of
            Inl e \<Rightarrow> Inl e
          | Inr _ \<Rightarrow>
          (case computeWeeklyBalances orderedMonths occurrences priorEndingBalances
                  checkpoints of
            Inl e \<Rightarrow> Inl e
          | Inr weeklyBalances \<Rightarrow>
          (case assertWeeklyBalanceRollForward weeklyBalances endingBalances of
            Inl e \<Rightarrow> Inl e
          | Inr _ \<Rightarrow>
              Inr \<lparr> fr_months = orderedMonths, fr_accounts = accounts,
                    fr_endingBalances = endingBalances,
                    fr_weeklyBalances = weeklyBalances \<rparr>)))))"

section \<open>Notions used in the statements\<close>

subsection \<open>Month identifiers and the calendar\<close>

text \<open>A well-formed month identifier: four digits, a dash, two digits, with a month from 01
  to 12 and a year from 0001.\<close>

definition yearOf :: "string \<Rightarrow> int" where
  "yearOf s = decimalValue (take 4 s)"

definition monthOf :: "string \<Rightarrow> int" where
  "monthOf s = decimalValue (drop 5 s)"

definition validMonthId :: "string \<Rightarrow> bool" where
  "validMonthId s \<longleftrightarrow>
     length s = 7 \<and> s ! 4 = CHR ''-'' \<and> list_all isDigit (take 4 s) \<and> list_all isDigit (drop 5 s)
     \<and> 1 \<le> yearOf s \<and> 1 \<le> monthOf s \<and> monthOf s \<le> 12"

text \<open>The fields that the guard of \<^verbatim>\<open>startOfMonth\<close> looks at, and what it rejects: a field
  that is missing, that is not a number, or that is zero.\<close>

definition yearField :: "string \<Rightarrow> string" where
  "yearField s = hd (splitOn CHR ''-'' s)"

definition monthField :: "string \<Rightarrow> string option" where
  "monthField s = (case splitOn CHR ''-'' s of _ # m # _ \<Rightarrow> Some m | _ \<Rightarrow> None)"



text \<open>The first instant of month \<open>m\<close> (1 to 12) of year \<open>y\<close> in UTC: the days before the year
  and the lengths of the months before \<open>m\<close>, in milliseconds.\<close>

definition firstInstantOfMonth :: "int \<Rightarrow> int \<Rightarrow> int" where
  "firstInstantOfMonth y m =
     (DayFromYear y + sum_list (take (nat (m - 1)) (monthLengths y))) * msPerDay"

definition daysInMonth :: "int \<Rightarrow> int \<Rightarrow> int" where
  "daysInMonth y m = monthLengths y ! nat (m - 1)"

definition followingMonth :: "int \<Rightarrow> int \<Rightarrow> int \<times> int" where
  "followingMonth y m = (if m = 12 then (y + 1, 1) else (y, m + 1))"

definition utcInstant :: "int \<Rightarrow> int \<Rightarrow> int \<Rightarrow> int \<Rightarrow> int \<Rightarrow> timestamp" where
  "utcInstant y m d hh mi =
     Instant (firstInstantOfMonth y m + (d - 1) * msPerDay + hh * 3600000 + mi * 60000)"

subsection \<open>Windows\<close>

text \<open>A list of week windows partitions \<open>[s, e)\<close>: it is not empty, the first window starts
  at \<open>s\<close>, every window is non-empty and starts where the one before ends, and the last one
  ends at \<open>e\<close>.\<close>

fun contiguousFrom :: "int \<Rightarrow> weekWindow list \<Rightarrow> bool" where
  "contiguousFrom s [] = True"
| "contiguousFrom s (w # ws) =
     (week_start w = s \<and> week_start w < week_end w \<and> contiguousFrom (week_end w) ws)"

definition partitionsWindow :: "int \<Rightarrow> int \<Rightarrow> weekWindow list \<Rightarrow> bool" where
  "partitionsWindow s e ws \<longleftrightarrow> ws \<noteq> [] \<and> contiguousFrom s ws \<and> week_end (last ws) = e"

definition wellFormedTimestamps :: "occurrence list \<Rightarrow> anchorCheckpoint list \<Rightarrow> bool" where
  "wellFormedTimestamps occurrences checkpoints \<longleftrightarrow>
     list_all (\<lambda>occ. occ_timestamp occ \<noteq> Malformed) occurrences
     \<and> list_all (\<lambda>cp. cp_timestamp cp \<noteq> Malformed) checkpoints"

subsection \<open>Anchor and net activity, in the words of the specification\<close>

definition occTime :: "occurrence \<Rightarrow> int" where
  "occTime occ = msOf (occ_timestamp occ)"

definition cpTime :: "anchorCheckpoint \<Rightarrow> int" where
  "cpTime cp = msOf (cp_timestamp cp)"

definition checkpointsInWindow ::
  "anchorCheckpoint list \<Rightarrow> accountSlug \<Rightarrow> int \<Rightarrow> int \<Rightarrow> anchorCheckpoint list" where
  "checkpointsInWindow checkpoints account s e =
     filter (\<lambda>cp. cp_accountSlug cp = account \<and> s \<le> cpTime cp \<and> cpTime cp < e) checkpoints"

text \<open>Of a non-empty list of checkpoints: the one with the latest timestamp, and among those
  with that timestamp the one supplied last.\<close>

definition effectiveCheckpoint :: "anchorCheckpoint list \<Rightarrow> anchorCheckpoint" where
  "effectiveCheckpoint cs =
     last (filter (\<lambda>cp. cpTime cp = Max (set (map cpTime cs))) cs)"

definition expectedAnchor ::
  "anchorCheckpoint list \<Rightarrow> (accountSlug \<rightharpoonup> rat) \<Rightarrow> accountSlug \<Rightarrow> int \<Rightarrow> int \<Rightarrow> anchorMetadata"
where
  "expectedAnchor checkpoints runningBalance account s e =
     (if checkpointsInWindow checkpoints account s e = []
      then \<lparr> anchor_balance = (case runningBalance account of Some b \<Rightarrow> b | None \<Rightarrow> 0),
             anchor_timestamp = Instant s,
             anchor_source = (if runningBalance account \<noteq> None then Rollforward else Initial),
             checkpointId = None,
             isInterim = False \<rparr>
      else (let cp = effectiveCheckpoint (checkpointsInWindow checkpoints account s e)
            in \<lparr> anchor_balance = cp_balance cp,
                 anchor_timestamp = cp_timestamp cp,
                 anchor_source = Checkpoint,
                 checkpointId = Some (cp_id cp),
                 isInterim = (cpTime cp > s) \<rparr>))"

text \<open>An occurrence contributes to the net activity of a window when it belongs to the
  account, lies in the half-open window and is not before the anchor; at the very instant of
  a checkpoint anchor it does not contribute.\<close>

definition contributes ::
  "accountSlug \<Rightarrow> int \<Rightarrow> int \<Rightarrow> anchorMetadata \<Rightarrow> occurrence \<Rightarrow> bool" where
  "contributes account s e anc occ \<longleftrightarrow>
     occ_accountSlug occ = account \<and> s \<le> occTime occ \<and> occTime occ < e
     \<and> occTime occ \<ge> msOf (anchor_timestamp anc)
     \<and> \<not> (anchor_source anc = Checkpoint \<and> occTime occ = msOf (anchor_timestamp anc))"

definition expectedNet ::
  "occurrence list \<Rightarrow> accountSlug \<Rightarrow> int \<Rightarrow> int \<Rightarrow> anchorMetadata \<Rightarrow> rat" where
  "expectedNet occurrences account s e anc =
     sum_list (map occ_amount (filter (contributes account s e anc) occurrences))"




subsection \<open>Reading the results\<close>



text \<open>The passes of the loop over months in \<^verbatim>\<open>computeEndingBalances\<close>, one entry per
  iteration: the month and the \<^verbatim>\<open>monthCells\<close> it built.\<close>

fun monthPasses ::
  "occurrence list \<Rightarrow> anchorCheckpoint list \<Rightarrow> accountSlug list \<Rightarrow> string list
     \<Rightarrow> (accountSlug \<rightharpoonup> rat)
     \<Rightarrow> error + ((string \<times> (accountSlug \<times> endingBalanceCell) list) list \<times> (accountSlug \<rightharpoonup> rat))"
where
  "monthPasses occurrences checkpoints accounts [] priorBalances = Inr ([], priorBalances)"
| "monthPasses occurrences checkpoints accounts (m # orderedMonths) priorBalances =
     (case startOfMonth m of
        Inl e \<Rightarrow> Inl e
      | Inr monthStart \<Rightarrow>
     (case monthEndExclusive m of
        Inl e \<Rightarrow> Inl e
      | Inr monthEnd \<Rightarrow>
     (case monthAccounts occurrences checkpoints m monthStart monthEnd accounts
             ([], priorBalances) of
        Inl e \<Rightarrow> Inl e
      | Inr (monthCells, priorBalances') \<Rightarrow>
     (case monthPasses occurrences checkpoints accounts orderedMonths priorBalances' of
        Inl e \<Rightarrow> Inl e
      | Inr (passes, priorBalances'') \<Rightarrow> Inr ((m, monthCells) # passes, priorBalances'')))))"

subsection \<open>The two scenarios of the specification\<close>

definition literalScenario :: buildForecastParams where
  "literalScenario =
     \<lparr> bp_months = [''2025-01'', ''2025-02''],
       bp_occurrences =
         [\<lparr> occ_accountSlug = ''operating'', occ_amount = 450,
             occ_timestamp = utcInstant 2025 1 3 0 0 \<rparr>,
          \<lparr> occ_accountSlug = ''operating'', occ_amount = - 180,
             occ_timestamp = utcInstant 2025 1 7 0 0 \<rparr>,
          \<lparr> occ_accountSlug = ''operating'', occ_amount = - 220,
             occ_timestamp = utcInstant 2025 1 20 0 0 \<rparr>,
          \<lparr> occ_accountSlug = ''operating'', occ_amount = 375,
             occ_timestamp = utcInstant 2025 2 4 0 0 \<rparr>,
          \<lparr> occ_accountSlug = ''operating'', occ_amount = - 120,
             occ_timestamp = utcInstant 2025 2 12 0 0 \<rparr>,
          \<lparr> occ_accountSlug = ''operating'', occ_amount = - 315,
             occ_timestamp = utcInstant 2025 2 21 0 0 \<rparr>],
       bp_priorEndingBalances = [(''operating'', 1250)],
       bp_checkpoints =
         [\<lparr> cp_id = ''checkpoint-1'', cp_accountSlug = ''operating'', cp_balance = 1480,
             cp_timestamp = utcInstant 2025 1 17 14 0 \<rparr>] \<rparr>"

definition secondScenario :: buildForecastParams where
  "secondScenario =
     \<lparr> bp_months = [''2025-01'', ''2025-02''],
       bp_occurrences =
         [\<lparr> occ_accountSlug = ''profit'', occ_amount = 75,
             occ_timestamp = utcInstant 2025 1 10 0 0 \<rparr>,
          \<lparr> occ_accountSlug = ''profit'', occ_amount = - 50,
             occ_timestamp = utcInstant 2025 1 25 0 0 \<rparr>,
          \<lparr> occ_accountSlug = ''profit'', occ_amount = 80,
             occ_timestamp = utcInstant 2025 2 8 0 0 \<rparr>],
       bp_priorEndingBalances = [(''profit'', 300)],
       bp_checkpoints =
         [\<lparr> cp_id = ''checkpoint-2'', cp_accountSlug = ''profit'', cp_balance = 430,
             cp_timestamp = utcInstant 2025 2 18 13 30 \<rparr>] \<rparr>"

text \<open>\<^verbatim>\<open>computeEndingBalances\<close> on the inputs of a scenario.\<close>

definition endingBalancesOf :: "buildForecastParams \<Rightarrow> error + monthlyBalances" where
  "endingBalancesOf params =
     computeEndingBalances (bp_months params) (bp_occurrences params)
       (bp_priorEndingBalances params) (bp_checkpoints params)"


section \<open>Properties\<close>

subsection \<open>The scenarios\<close>

lemma literalScenario_endingBalances:
  "endingBalancesOf literalScenario =
     Inr [(''2025-01'',
           [(''operating'',
             \<lparr> ym = ''2025-01'', accountSlug = ''operating'', beginningBalance = 1480,
               balance = 1260, netAfterAnchor = - 220,
               anchor = \<lparr> anchor_balance = 1480, anchor_timestamp = utcInstant 2025 1 17 14 0,
                          anchor_source = Checkpoint, checkpointId = Some ''checkpoint-1'',
                          isInterim = True \<rparr> \<rparr>)]),
          (''2025-02'',
           [(''operating'',
             \<lparr> ym = ''2025-02'', accountSlug = ''operating'', beginningBalance = 1260,
               balance = 1200, netAfterAnchor = - 60,
               anchor = \<lparr> anchor_balance = 1260, anchor_timestamp = utcInstant 2025 2 1 0 0,
                          anchor_source = Rollforward, checkpointId = None,
                          isInterim = False \<rparr> \<rparr>)])]"
  by code_simp

text \<open>
  Claim C1.  The specification expects \<^verbatim>\<open>buildForecast\<close> to return, for the literal
  end-to-end scenario, a January cell anchored on the checkpoint (1480, net -220, ending 1260)
  and a February cell rolled forward from it (1260, net -60, ending 1200).
  \<^verbatim>\<open>computeEndingBalances\<close> computes exactly these cells (\<open>literalScenario_endingBalances\<close>),
  but \<^verbatim>\<open>buildForecast\<close> does not return them: the weekly verifier compares the beginning
  balance of the week that holds the checkpoint (1480, week ending 2025-01-19, day 20107)
  with the ending balance of the week before (1520) and throws.
\<close>

theorem buildForecast_literalScenario_throws:
  "buildForecast literalScenario = Inl (WeeklyContinuityViolation (IsoDate 20107))"
  by code_simp

text \<open>
  Claim C2.  The specification expects the continuity verifiers never to throw on
  self-consistent input.  On its own second scenario the monthly verifier throws: the
  February cell begins at the checkpoint balance 430 while January ended at 325, and
  \<^verbatim>\<open>assertBalanceRollForward\<close> makes no exception for a checkpoint anchor.
\<close>

theorem buildForecast_secondScenario_throws:
  "buildForecast secondScenario = Inl (ContinuityViolation ''2025-02'')"
  by code_simp

subsection \<open>The calendar\<close>

lemma div_succ:
  fixes a n :: int
  assumes "0 < n"
  shows "(a + 1) div n = a div n + (if (a + 1) mod n = 0 then 1 else 0)"
proof (cases "(a + 1) mod n = 0")
  case True
  then obtain q where q: "a + 1 = n * q" by (auto simp: mod_eq_0_iff_dvd)
  then have a: "a = n * (q - 1) + (n - 1)" by (simp add: algebra_simps)
  have "a div n = q - 1"
    using a assms by (intro int_div_pos_eq[where r = "n - 1"]) simp_all
  moreover have "(a + 1) div n = q" using q assms by simp
  ultimately show ?thesis using True by simp
next
  case False
  have r: "0 \<le> a mod n" "a mod n < n" using assms by simp_all
  have "a mod n + 1 \<noteq> n"
  proof
    assume eq: "a mod n + 1 = n"
    have "(a + 1) mod n = (a mod n + 1) mod n" by (simp add: mod_add_left_eq)
    also have "\<dots> = n mod n" by (simp only: eq)
    finally have "(a + 1) mod n = 0" by simp
    with False show False by simp
  qed
  with r have lt: "a mod n + 1 < n" by simp
  have "a + 1 = n * (a div n) + (a mod n + 1)" by simp
  then have "(a + 1) div n = a div n"
    using r lt by (intro int_div_pos_eq[where r = "a mod n + 1"]) simp_all
  then show ?thesis using False by simp
qed

lemma mod_shift:
  fixes y :: int
  shows "(y - 1968) mod 4 = y mod 4" "(y - 1900) mod 100 = y mod 100" "(y - 1600) mod 400 = y mod 400"
proof -
  have "(y - 4 * 492) mod 4 = y mod 4" "(y - 100 * 19) mod 100 = y mod 100" "(y - 400 * 4) mod 400 = y mod 400"
    by (simp_all add: mod_diff_eq[symmetric, of y] del: mult_numeral_left_semiring_numeral)
  then show "(y - 1968) mod 4 = y mod 4" "(y - 1900) mod 100 = y mod 100" "(y - 1600) mod 400 = y mod 400"
    by simp_all
qed

lemma DayFromYear_Suc: "DayFromYear (y + 1) = DayFromYear y + (if InLeapYear y then 366 else 365)"
proof -
  have e4: "(y - 1968) div 4 = (y - 1969) div 4 + (if y mod 4 = 0 then 1 else 0)"
    using div_succ[of 4 "y - 1969"] by (simp add: mod_shift)
  have e100: "(y - 1900) div 100 = (y - 1901) div 100 + (if y mod 100 = 0 then 1 else 0)"
    using div_succ[of 100 "y - 1901"] by (simp add: mod_shift)
  have e400: "(y - 1600) div 400 = (y - 1601) div 400 + (if y mod 400 = 0 then 1 else 0)"
    using div_succ[of 400 "y - 1601"] by (simp add: mod_shift)
  have imp: "y mod 400 = 0 \<Longrightarrow> y mod 100 = 0" "y mod 100 = 0 \<Longrightarrow> y mod 4 = 0"
    by (auto simp: mod_eq_0_iff_dvd elim: dvd_trans[rotated])
  have L: "DayFromYear (y + 1) =
      365 * (y - 1969) + (y - 1968) div 4 - (y - 1900) div 100 + (y - 1600) div 400"
    by (simp add: DayFromYear_def)
  show ?thesis
    unfolding L e4 e100 e400 unfolding DayFromYear_def InLeapYear_def using imp
    by (cases "y mod 4 = 0"; cases "y mod 100 = 0"; cases "y mod 400 = 0") simp_all
qed

lemma DayFromYear_bounds:
  assumes y: "100 \<le> y" "y \<le> 10000"
  shows "- 700000 \<le> DayFromYear y" "DayFromYear y \<le> 3000000"
proof -
  define d4 m4 where "d4 = (y - 1969) div 4" and "m4 = (y - 1969) mod 4"
  define d100 m100 where "d100 = (y - 1901) div 100" and "m100 = (y - 1901) mod 100"
  define d400 m400 where "d400 = (y - 1601) div 400" and "m400 = (y - 1601) mod 400"
  have a: "y - 1969 = d4 * 4 + m4" "0 \<le> m4" "m4 < 4"
    and b: "y - 1901 = d100 * 100 + m100" "0 \<le> m100" "m100 < 100"
    and c: "y - 1601 = d400 * 400 + m400" "0 \<le> m400" "m400 < 400"
    by (simp_all add: d4_def m4_def d100_def m100_def d400_def m400_def)
  have D: "DayFromYear y = 365 * (y - 1970) + d4 - d100 + d400"
    by (simp only: DayFromYear_def d4_def d100_def d400_def)
  have 1: "- 500 \<le> d4" "d4 \<le> 2100" using y a by linarith+
  have 2: "- 20 \<le> d100" "d100 \<le> 81" using y b by linarith+
  have 3: "- 5 \<le> d400" "d400 \<le> 21" using y c by linarith+
  show "- 700000 \<le> DayFromYear y"
    unfolding D using y 1 2 3 by simp
  show "DayFromYear y \<le> 3000000"
    unfolding D using y 1 2 3 by simp
qed

lemma sum_take_monthLengths:
  assumes "0 \<le> k" "k \<le> 11"
  shows "0 \<le> sum_list (take (nat k) (monthLengths y))" "sum_list (take (nat k) (monthLengths y)) \<le> 335"
proof -
  from assms have "k = 0 \<or> k = 1 \<or> k = 2 \<or> k = 3 \<or> k = 4 \<or> k = 5 \<or> k = 6 \<or> k = 7 \<or> k = 8 \<or> k = 9 \<or> k = 10 \<or> k = 11" by arith
  then show "0 \<le> sum_list (take (nat k) (monthLengths y))" "sum_list (take (nat k) (monthLengths y)) \<le> 335"
    by (auto simp: monthLengths_def)
qed

subsection \<open>Month identifiers\<close>

lemma isDigit_cases: "isDigit c \<Longrightarrow> 0 \<le> digitValue c \<and> digitValue c \<le> 9 \<and> c \<noteq> CHR ''-''"
  by (auto simp: isDigit_def digitValue_def)

lemma length7E:
  assumes "length (s::'a list) = 7"
  obtains a b c d e f g where "s = [a, b, c, d, e, f, g]"
proof -
  from assms obtain a s1 where 1: "s = a # s1" "length s1 = 6" by (cases s) auto
  then obtain b s2 where 2: "s1 = b # s2" "length s2 = 5" by (cases s1) auto
  then obtain c s3 where 3: "s2 = c # s3" "length s3 = 4" by (cases s2) auto
  then obtain d s4 where 4: "s3 = d # s4" "length s4 = 3" by (cases s3) auto
  then obtain e s5 where 5: "s4 = e # s5" "length s5 = 2" by (cases s4) auto
  then obtain f s6 where 6: "s5 = f # s6" "length s6 = 1" by (cases s5) auto
  then obtain g where 7: "s6 = [g]" by (cases s6) auto
  show ?thesis using that[of a b c d e f g] 1 2 3 4 5 6 7 by simp
qed

lemma validMonthId_fields:
  assumes "validMonthId s"
  shows "yearAndMonth s = Inr (yearOf s, monthOf s)"
    and "1 \<le> yearOf s" and "yearOf s \<le> 9999" and "1 \<le> monthOf s" and "monthOf s \<le> 12"
    and "yearField s = take 4 s" and "monthField s = Some (drop 5 s)"
proof -
  from assms have len: "length s = 7" by (simp add: validMonthId_def)
  then obtain a b c d e f g where s: "s = [a, b, c, d, e, f, g]" by (rule length7E)
  from assms s have dg: "isDigit a" "isDigit b" "isDigit c" "isDigit d" "isDigit f" "isDigit g"
    and e: "e = CHR ''-''"
    by (simp_all add: validMonthId_def)
  note bs = dg[THEN isDigit_cases]
  have sp: "splitOn CHR ''-'' s = [[a, b, c, d], [f, g]]"
    using bs by (simp add: s e)
  show ym: "1 \<le> yearOf s" "1 \<le> monthOf s" "monthOf s \<le> 12"
    using assms by (simp_all add: validMonthId_def)
  show "yearOf s \<le> 9999"
    using bs by (simp add: s yearOf_def decimalValue_def)
  show "yearField s = take 4 s" "monthField s = Some (drop 5 s)"
    by (simp_all add: yearField_def monthField_def sp) (simp_all add: s)
  have t: "take 4 s = [a, b, c, d]" "drop 5 s = [f, g]" by (simp_all add: s)
  show "yearAndMonth s = Inr (yearOf s, monthOf s)"
    using ym dg unfolding yearAndMonth_def sp yearOf_def monthOf_def t
    by (simp add: Number_js_def)
qed

lemma month_cases:
  fixes m :: int
  assumes "1 \<le> m" "m \<le> 12"
  shows "m = 1 \<or> m = 2 \<or> m = 3 \<or> m = 4 \<or> m = 5 \<or> m = 6 \<or> m = 7 \<or> m = 8 \<or> m = 9 \<or> m = 10
         \<or> m = 11 \<or> m = 12"
  using assms by arith

lemma MakeDay_start:
  assumes "1 \<le> m" "m \<le> 12"
  shows "MakeDay y (m - 1) 1 * msPerDay = firstInstantOfMonth y m"
  using month_cases[OF assms] by (auto simp: MakeDay_def firstInstantOfMonth_def)

lemma MakeDay_end:
  assumes "1 \<le> m" "m \<le> 12"
  shows "MakeDay y m 1 * msPerDay =
           (case followingMonth y m of (y', m') \<Rightarrow> firstInstantOfMonth y' m')"
  using month_cases[OF assms]
  by (auto simp: MakeDay_def firstInstantOfMonth_def followingMonth_def)

lemma DayFromYear_Suc2:
  "DayFromYear (1 + y) = DayFromYear y + (if InLeapYear y then 366 else 365)"
  using DayFromYear_Suc[of y] by (simp add: add.commute)

lemma month_length:
  assumes "1 \<le> m" "m \<le> 12"
  shows "(case followingMonth y m of (y', m') \<Rightarrow> firstInstantOfMonth y' m')
           - firstInstantOfMonth y m = daysInMonth y m * msPerDay"
    and "0 < daysInMonth y m"
  using month_cases[OF assms]
  by (auto simp: firstInstantOfMonth_def followingMonth_def daysInMonth_def monthLengths_def
        DayFromYear_Suc DayFromYear_Suc2 algebra_simps)

lemma validMonthId_window:
  assumes "validMonthId s"
  shows "\<exists>a b. startOfMonth s = Inr (Some a) \<and> monthEndExclusive s = Inr (Some b) \<and> a < b
           \<and> a mod msPerDay = 0 \<and> b mod msPerDay = 0
           \<and> - 8000000000000000 \<le> a \<and> b \<le> 8000000000000000"
proof -
  note f = validMonthId_fields[OF assms]
  define yr where "yr = (if 0 \<le> yearOf s \<and> yearOf s \<le> 99 then 1900 + yearOf s else yearOf s)"
  have yr: "100 \<le> yr" "yr \<le> 9999" using f(2,3) by (auto simp: yr_def)
  define a where "a = firstInstantOfMonth yr (monthOf s)"
  define b where "b = (case followingMonth yr (monthOf s) of (y', m') \<Rightarrow> firstInstantOfMonth y' m')"
  have k: "0 \<le> monthOf s - 1" "monthOf s - 1 \<le> 11" using f(4,5) by simp_all
  have lo: "- 700000 * msPerDay \<le> a"
    using DayFromYear_bounds(1)[of yr] sum_take_monthLengths(1)[OF k, of yr] yr
    by (simp add: a_def firstInstantOfMonth_def msPerDay_def)
  have hi: "a \<le> 3000335 * msPerDay"
    using DayFromYear_bounds(2)[of yr] sum_take_monthLengths(2)[OF k, of yr] yr
    by (simp add: a_def firstInstantOfMonth_def msPerDay_def)
  have len: "b - a = daysInMonth yr (monthOf s) * msPerDay" "0 < daysInMonth yr (monthOf s)"
    using month_length[OF f(4,5), of yr] by (simp_all add: a_def b_def)
  have "daysInMonth yr (monthOf s) \<le> 31"
    using month_cases[OF f(4,5)] by (auto simp: daysInMonth_def monthLengths_def)
  with len have ab: "a < b" "b \<le> a + 31 * msPerDay"
    by (simp_all add: msPerDay_def)
  have sa: "startOfMonth s = Inr (TimeClip a)"
    using MakeDay_start[OF f(4,5), of yr]
    by (simp add: startOfMonth_def f(1) Date_UTC_def yr_def a_def Let_def)
  have sb: "monthEndExclusive s = Inr (TimeClip b)"
    using MakeDay_end[OF f(4,5), of yr]
    by (simp add: monthEndExclusive_def f(1) Date_UTC_def yr_def b_def Let_def)
  have ca: "TimeClip a = Some a" and cb: "TimeClip b = Some b"
    using lo hi ab by (simp_all add: TimeClip_def msPerDay_def)
  have da: "a mod msPerDay = 0" by (simp add: a_def firstInstantOfMonth_def)
  have "b mod msPerDay = (a + daysInMonth yr (monthOf s) * msPerDay) mod msPerDay"
    using len(1) by (simp add: algebra_simps)
  then have db: "b mod msPerDay = 0" using da by simp
  show ?thesis
    using sa sb ca cb ab lo hi da db by (intro exI[of _ a] exI[of _ b]) (simp add: msPerDay_def)
qed






subsection \<open>The weeks of a month\<close>

lemma TimeClip_Some:
  "- 8640000000000000 \<le> t \<Longrightarrow> t \<le> 8640000000000000 \<Longrightarrow> TimeClip t = Some t"
  by (simp add: TimeClip_def)

lemma weeksFrom_step:
  assumes "cursor < monthEnd" "- 8000000000000000 \<le> cursor" "monthEnd \<le> 8000000000000000"
  shows "\<exists>exclusiveEnd. cursor < exclusiveEnd \<and> exclusiveEnd \<le> monthEnd
           \<and> (cursor mod msPerDay = 0 \<and> monthEnd mod msPerDay = 0
                \<longrightarrow> exclusiveEnd mod msPerDay = 0)
           \<and> weeksFrom cursor monthEnd =
               (case weeksFrom exclusiveEnd monthEnd of
                  Inl e \<Rightarrow> Inl e
                | Inr result \<Rightarrow>
                    Inr (\<lparr> week_start = cursor, week_end = exclusiveEnd,
                           week_weekKey = IsoDate ((exclusiveEnd - msPerDay) div msPerDay) \<rparr>
                         # result))"
proof -
  define k where "k = (if getUTCDay cursor = 0 then 0 else 7 - getUTCDay cursor)"
  have g: "0 \<le> getUTCDay cursor" "getUTCDay cursor < 7" by (simp_all add: getUTCDay_def)
  then have k: "0 \<le> k" "k \<le> 6" by (auto simp: k_def)
  define weekEnd0 where "weekEnd0 = cursor + k * msPerDay"
  define weekEnd where "weekEnd = (if weekEnd0 \<le> cursor then weekEnd0 + 7 * msPerDay else weekEnd0)"
  define exclusiveEnd where "exclusiveEnd = min (weekEnd + msPerDay) monthEnd"
  have w0: "cursor \<le> weekEnd0" "weekEnd0 \<le> cursor + 6 * msPerDay"
    using k by (simp_all add: weekEnd0_def msPerDay_def)
  have w: "cursor < weekEnd" "weekEnd \<le> cursor + 7 * msPerDay"
    using w0 by (auto simp: weekEnd_def msPerDay_def)
  have c0: "addUTCDays cursor k = Some weekEnd0"
    unfolding addUTCDays_def weekEnd0_def[symmetric]
    using w0 assms by (intro TimeClip_Some) (simp_all add: msPerDay_def)
  have c1: "(if weekEnd0 \<le> cursor then addUTCDays weekEnd0 7 else Some weekEnd0) = Some weekEnd"
  proof (cases "weekEnd0 \<le> cursor")
    case True
    have "TimeClip (weekEnd0 + 7 * msPerDay) = Some (weekEnd0 + 7 * msPerDay)"
      using w0 assms by (intro TimeClip_Some) (simp_all add: msPerDay_def)
    then show ?thesis using True by (simp add: addUTCDays_def weekEnd_def)
  next
    case False
    then show ?thesis by (simp add: weekEnd_def)
  qed
  have ex: "cursor < exclusiveEnd" "exclusiveEnd \<le> monthEnd"
    using w assms by (simp_all add: exclusiveEnd_def msPerDay_def)
  have c2: "TimeClip (min (weekEnd + 24 * 60 * 60 * 1000) monthEnd) = Some exclusiveEnd"
  proof -
    have "min (weekEnd + 24 * 60 * 60 * 1000) monthEnd = exclusiveEnd"
      by (simp add: exclusiveEnd_def msPerDay_def)
    moreover have "TimeClip exclusiveEnd = Some exclusiveEnd"
      using ex assms by (intro TimeClip_Some) simp_all
    ultimately show ?thesis by simp
  qed
  have c3: "toIsoDate (TimeClip (exclusiveEnd - 24 * 60 * 60 * 1000))
              = Inr (IsoDate ((exclusiveEnd - msPerDay) div msPerDay))"
  proof -
    have "exclusiveEnd - 24 * 60 * 60 * 1000 = exclusiveEnd - msPerDay"
      by (simp add: msPerDay_def)
    moreover have "TimeClip (exclusiveEnd - msPerDay) = Some (exclusiveEnd - msPerDay)"
      using ex assms by (intro TimeClip_Some) (simp_all add: msPerDay_def)
    ultimately show ?thesis by (simp add: toIsoDate_def)
  qed
  have dv: "exclusiveEnd mod msPerDay = 0"
    if "cursor mod msPerDay = 0" "monthEnd mod msPerDay = 0"
  proof -
    have "weekEnd0 mod msPerDay = 0" using that by (simp add: weekEnd0_def)
    then have "weekEnd mod msPerDay = 0" by (simp add: weekEnd_def)
    then have "(weekEnd + msPerDay) mod msPerDay = 0" by simp
    then show ?thesis using that by (simp add: exclusiveEnd_def min_def)
  qed
  have eq: "weeksFrom cursor monthEnd =
               (case weeksFrom exclusiveEnd monthEnd of
                  Inl e \<Rightarrow> Inl e
                | Inr result \<Rightarrow>
                    Inr (\<lparr> week_start = cursor, week_end = exclusiveEnd,
                           week_weekKey = IsoDate ((exclusiveEnd - msPerDay) div msPerDay) \<rparr>
                         # result))"
    by (subst weeksFrom.simps)
       (simp only: assms(1) if_True c0[unfolded k_def] c1 c2 c3 option.case sum.case)
  show ?thesis
  proof (intro exI[of _ exclusiveEnd] conjI impI)
    show "cursor < exclusiveEnd" "exclusiveEnd \<le> monthEnd" by (rule ex)+
    show "exclusiveEnd mod msPerDay = 0"
      if "cursor mod msPerDay = 0 \<and> monthEnd mod msPerDay = 0"
      using that dv by simp
    show "weeksFrom cursor monthEnd =
               (case weeksFrom exclusiveEnd monthEnd of
                  Inl e \<Rightarrow> Inl e
                | Inr result \<Rightarrow>
                    Inr (\<lparr> week_start = cursor, week_end = exclusiveEnd,
                           week_weekKey = IsoDate ((exclusiveEnd - msPerDay) div msPerDay) \<rparr>
                         # result))"
      by (rule eq)
  qed
qed

lemma weeksFrom_empty: "\<not> cursor < monthEnd \<Longrightarrow> weeksFrom cursor monthEnd = Inr []"
  by (subst weeksFrom.simps) simp

lemma weeksFrom_partition:
  assumes "- 8000000000000000 \<le> cursor" "monthEnd \<le> 8000000000000000"
  shows "\<exists>ws. weeksFrom cursor monthEnd = Inr ws \<and> contiguousFrom cursor ws
           \<and> (cursor < monthEnd \<longrightarrow> ws \<noteq> [] \<and> week_end (last ws) = monthEnd)
           \<and> (cursor \<ge> monthEnd \<longrightarrow> ws = [])"
  using assms
proof (induction "nat (monthEnd - cursor)" arbitrary: cursor rule: less_induct)
  case less
  show ?case
  proof (cases "cursor < monthEnd")
    case False
    then show ?thesis by (simp add: weeksFrom_empty)
  next
    case True
    from weeksFrom_step[OF True less.prems] obtain x where
      x: "cursor < x" "x \<le> monthEnd"
      and eq: "weeksFrom cursor monthEnd =
               (case weeksFrom x monthEnd of
                  Inl e \<Rightarrow> Inl e
                | Inr result \<Rightarrow>
                    Inr (\<lparr> week_start = cursor, week_end = x,
                           week_weekKey = IsoDate ((x - msPerDay) div msPerDay) \<rparr>
                         # result))"
      by blast
    have "nat (monthEnd - x) < nat (monthEnd - cursor)" using x True by simp
    moreover have "- 8000000000000000 \<le> x" using x less.prems by simp
    ultimately have "\<exists>ws. weeksFrom x monthEnd = Inr ws \<and> contiguousFrom x ws
           \<and> (x < monthEnd \<longrightarrow> ws \<noteq> [] \<and> week_end (last ws) = monthEnd)
           \<and> (x \<ge> monthEnd \<longrightarrow> ws = [])"
      using less.hyps[of x] less.prems(2) by simp
    then obtain ws where ws: "weeksFrom x monthEnd = Inr ws" "contiguousFrom x ws"
      "x < monthEnd \<longrightarrow> ws \<noteq> [] \<and> week_end (last ws) = monthEnd"
      "x \<ge> monthEnd \<longrightarrow> ws = []"
      by blast
    show ?thesis
      using x ws(2,3,4) True unfolding eq ws(1)
      by (cases "x < monthEnd") simp_all
  qed
qed

lemma weeksFrom_keys:
  assumes "- 8000000000000000 \<le> cursor" "monthEnd \<le> 8000000000000000"
    and "cursor mod msPerDay = 0" "monthEnd mod msPerDay = 0"
    and "weeksFrom cursor monthEnd = Inr ws"
  shows "sorted_wrt (<) (map (\<lambda>w. dayNumber (week_weekKey w)) ws)
         \<and> (\<forall>w\<in>set ws. cursor div msPerDay \<le> dayNumber (week_weekKey w))"
  using assms
proof (induction "nat (monthEnd - cursor)" arbitrary: cursor ws rule: less_induct)
  case less
  show ?case
  proof (cases "cursor < monthEnd")
    case False
    then have "weeksFrom cursor monthEnd = Inr []" by (rule weeksFrom_empty)
    with less.prems(5) have "ws = []" by simp
    then show ?thesis by simp
  next
    case True
    from weeksFrom_step[OF True less.prems(1,2)] obtain x where
      X: "cursor < x \<and> x \<le> monthEnd
           \<and> (cursor mod msPerDay = 0 \<and> monthEnd mod msPerDay = 0 \<longrightarrow> x mod msPerDay = 0)
           \<and> weeksFrom cursor monthEnd =
               (case weeksFrom x monthEnd of
                  Inl e \<Rightarrow> Inl e
                | Inr result \<Rightarrow>
                    Inr (\<lparr> week_start = cursor, week_end = x,
                           week_weekKey = IsoDate ((x - msPerDay) div msPerDay) \<rparr>
                         # result))" ..
    note x = X[THEN conjunct1] X[THEN conjunct2, THEN conjunct1]
    note dv = X[THEN conjunct2, THEN conjunct2, THEN conjunct1]
    note eq = X[THEN conjunct2, THEN conjunct2, THEN conjunct2]
    from dv less.prems have xd: "x mod msPerDay = 0" by simp
    from eq less.prems(5) obtain rest where
      rest: "weeksFrom x monthEnd = Inr rest"
      and ws: "ws = \<lparr> week_start = cursor, week_end = x,
                      week_weekKey = IsoDate ((x - msPerDay) div msPerDay) \<rparr> # rest"
      by (auto split: sum.splits)
    have "nat (monthEnd - x) < nat (monthEnd - cursor)" using x True by simp
    moreover have "- 8000000000000000 \<le> x" using x less.prems by simp
    ultimately have ih: "sorted_wrt (<) (map (\<lambda>w. dayNumber (week_weekKey w)) rest)"
      "\<forall>w\<in>set rest. x div msPerDay \<le> dayNumber (week_weekKey w)"
      using less.hyps[of x rest] less.prems(2,4) xd rest by simp_all
    have k1: "(x - msPerDay) div msPerDay = x div msPerDay - 1"
      by (simp add: msPerDay_def)
    from xd less.prems(3) have "x = x div msPerDay * msPerDay" "cursor = cursor div msPerDay * msPerDay"
      by (simp_all add: mod_eq_0_iff_dvd)
    with x(1) have "cursor div msPerDay * msPerDay < x div msPerDay * msPerDay" by simp
    then have k2: "cursor div msPerDay < x div msPerDay"
      by (simp add: msPerDay_def)
    have "\<forall>w\<in>set rest. x div msPerDay - 1 < dayNumber (week_weekKey w)"
      "\<forall>w\<in>set rest. cursor div msPerDay \<le> dayNumber (week_weekKey w)"
      using ih(2) k2 by auto
    then show ?thesis
      unfolding ws using ih(1) k1 k2 by simp
  qed
qed

lemma computeWeeksInMonth_valid:
  assumes "validMonthId s"
  shows "\<exists>a b ws. startOfMonth s = Inr (Some a) \<and> monthEndExclusive s = Inr (Some b)
           \<and> computeWeeksInMonth s = Inr ws \<and> a < b \<and> partitionsWindow a b ws
           \<and> sorted_wrt (<) (map (\<lambda>w. dayNumber (week_weekKey w)) ws)"
proof -
  from validMonthId_window[OF assms] obtain a b where
    ab: "startOfMonth s = Inr (Some a)" "monthEndExclusive s = Inr (Some b)" "a < b"
      "a mod msPerDay = 0" "b mod msPerDay = 0"
      "- 8000000000000000 \<le> a" "b \<le> 8000000000000000"
    by auto
  from weeksFrom_partition[OF ab(6,7)] obtain ws where
    ws: "weeksFrom a b = Inr ws" "contiguousFrom a ws"
      "a < b \<longrightarrow> ws \<noteq> [] \<and> week_end (last ws) = b"
    by auto
  have c: "computeWeeksInMonth s = Inr ws"
    by (simp add: computeWeeksInMonth_def ab(1,2) ws(1))
  have p: "partitionsWindow a b ws"
    using ws(2,3) ab(3) by (simp add: partitionsWindow_def)
  have k: "sorted_wrt (<) (map (\<lambda>w. dayNumber (week_weekKey w)) ws)"
    using weeksFrom_keys[OF ab(6,7,4,5) ws(1)] by simp
  show ?thesis
    using ab(1,2,3) c p k by (intro exI[of _ a] exI[of _ b] exI[of _ ws]) simp
qed

text \<open>
  Claim C7.  For every well-formed month identifier, \<^verbatim>\<open>computeWeeksInMonth\<close> returns a
  list of week windows that partitions the half-open window of the month: the first week
  starts at the month start, every week is non-empty and starts at the exclusive end of the
  week before, and the last week ends at the exclusive end of the month.
\<close>

theorem weeks_partition_month:
  assumes "validMonthId s"
  shows "\<exists>monthStart monthEnd weeks.
           startOfMonth s = Inr (Some monthStart) \<and> monthEndExclusive s = Inr (Some monthEnd)
           \<and> computeWeeksInMonth s = Inr weeks \<and> partitionsWindow monthStart monthEnd weeks"
proof -
  from computeWeeksInMonth_valid[OF assms] obtain a b ws where
    "startOfMonth s = Inr (Some a)" "monthEndExclusive s = Inr (Some b)"
    "computeWeeksInMonth s = Inr ws" "partitionsWindow a b ws"
    by auto
  then show ?thesis by (intro exI[of _ a] exI[of _ b] exI[of _ ws]) simp
qed

theorem weeks_partition_month_witness:
  "validMonthId ''2025-01''
   \<and> (\<exists>monthStart monthEnd weeks.
           startOfMonth ''2025-01'' = Inr (Some monthStart)
           \<and> monthEndExclusive ''2025-01'' = Inr (Some monthEnd)
           \<and> computeWeeksInMonth ''2025-01'' = Inr weeks
           \<and> partitionsWindow monthStart monthEnd weeks)"
proof -
  have v: "validMonthId ''2025-01''"
    by (simp add: validMonthId_def isDigit_def yearOf_def monthOf_def decimalValue_def
          digitValue_def)
  show ?thesis using weeks_partition_month[OF v] v by simp
qed

subsection \<open>Filters and the stable sort\<close>

lemma toUtcDate_valid: "ts \<noteq> Malformed \<Longrightarrow> toUtcDate ts = Inr (msOf ts)"
  by (cases ts) (simp_all add: toUtcDate_def msOf_def)

lemma toUtcDate_Inr: "toUtcDate ts = Inr t \<Longrightarrow> ts \<noteq> Malformed \<and> t = msOf ts"
  by (cases ts) (simp_all add: toUtcDate_def msOf_def)

lemma filterOccurrencesForWindow_valid:
  assumes "\<forall>occ\<in>set occs. occ_accountSlug occ = account \<longrightarrow> occ_timestamp occ \<noteq> Malformed"
  shows "filterOccurrencesForWindow occs account (Some s) (Some e) =
           Inr (filter (\<lambda>occ. occ_accountSlug occ = account \<and> s \<le> occTime occ \<and> occTime occ < e)
                  occs)"
  using assms
  by (induction occs) (simp_all add: toUtcDate_valid inWindow_def occTime_def)

lemma filterOccurrencesForWindow_Inr:
  assumes "filterOccurrencesForWindow occs account ws we = Inr kept"
  shows "\<forall>occ\<in>set occs. occ_accountSlug occ = account \<longrightarrow> occ_timestamp occ \<noteq> Malformed"
  using assms
proof (induction occs arbitrary: kept)
  case Nil
  then show ?case by simp
next
  case (Cons occ rest)
  show ?case
  proof (cases "occ_accountSlug occ = account")
    case False
    then show ?thesis using Cons by simp
  next
    case True
    from Cons.prems True obtain t kept' where
      "toUtcDate (occ_timestamp occ) = Inr t"
      "filterOccurrencesForWindow rest account ws we = Inr kept'"
      by (auto split: sum.splits)
    then show ?thesis using Cons.IH[of kept'] by (auto dest: toUtcDate_Inr)
  qed
qed

lemma filterCheckpointsForWindow_valid:
  assumes "\<forall>cp\<in>set cps. cp_accountSlug cp = account \<longrightarrow> cp_timestamp cp \<noteq> Malformed"
  shows "filterCheckpointsForWindow cps account (Some s) (Some e) =
           Inr (checkpointsInWindow cps account s e)"
  using assms
  by (induction cps)
     (simp_all add: toUtcDate_valid inWindow_def cpTime_def checkpointsInWindow_def)

lemma filterCheckpointsForWindow_Inr:
  assumes "filterCheckpointsForWindow cps account ws we = Inr kept"
  shows "\<forall>cp\<in>set cps. cp_accountSlug cp = account \<longrightarrow> cp_timestamp cp \<noteq> Malformed"
  using assms
proof (induction cps arbitrary: kept)
  case Nil
  then show ?case by simp
next
  case (Cons cp rest)
  show ?case
  proof (cases "cp_accountSlug cp = account")
    case False
    then show ?thesis using Cons by simp
  next
    case True
    from Cons.prems True obtain t kept' where
      "toUtcDate (cp_timestamp cp) = Inr t"
      "filterCheckpointsForWindow rest account ws we = Inr kept'"
      by (auto split: sum.splits)
    then show ?thesis using Cons.IH[of kept'] by (auto dest: toUtcDate_Inr)
  qed
qed

lemma keepAfterAnchor_valid:
  assumes "\<forall>occ\<in>set occs. occ_timestamp occ \<noteq> Malformed"
  shows "keepAfterAnchor anchorTime source occs =
           Inr (filter (\<lambda>occ. anchorTime \<le> occTime occ
                          \<and> \<not> (source = Checkpoint \<and> occTime occ = anchorTime)) occs)"
  using assms
  by (induction occs) (auto simp: toUtcDate_valid occTime_def)

lemma sortIsoStrings_valid:
  assumes "\<forall>cp\<in>set cs. cp_timestamp cp \<noteq> Malformed"
  shows "sortIsoStrings cs = Inr (sort_key cpTime cs)"
proof (cases "length cs < 2")
  case True
  then have "cs = [] \<or> (\<exists>x. cs = [x])"
    by (cases cs; cases "tl cs") auto
  then show ?thesis by (auto simp: sortIsoStrings_def)
next
  case False
  have "(\<lambda>cp. msOf (cp_timestamp cp)) = cpTime" by (simp add: cpTime_def fun_eq_iff)
  then show ?thesis using False assms by (simp add: sortIsoStrings_def list_ex_iff)
qed

lemma last_filter_last:
  assumes "xs \<noteq> []" "P (last xs)"
  shows "last (filter P xs) = last xs"
  using assms by (induction xs rule: rev_induct) simp_all

lemma last_sort_key:
  fixes f :: "'a \<Rightarrow> int"
  assumes "cs \<noteq> []"
  shows "last (sort_key f cs) = last (filter (\<lambda>c. f c = Max (set (map f cs))) cs)"
proof -
  let ?ys = "sort_key f cs"
  let ?K = "Max (set (map f cs))"
  have ne: "?ys \<noteq> []" using assms by (metis length_0_conv length_sort)
  have srt: "sorted (map f ?ys)" by (rule sorted_sort_key)
  have mem: "last ?ys \<in> set cs" using last_in_set[OF ne] by simp
  have "\<forall>x\<in>set ?ys. f x \<le> f (last ?ys)"
  proof
    fix x assume "x \<in> set ?ys"
    then obtain i where i: "i < length ?ys" "?ys ! i = x" by (metis in_set_conv_nth)
    have "map f ?ys ! i \<le> map f ?ys ! (length ?ys - 1)"
      using i(1) by (intro sorted_nth_mono[OF srt]) simp_all
    then show "f x \<le> f (last ?ys)" using i ne by (simp add: last_conv_nth)
  qed
  then have "\<forall>x\<in>set cs. f x \<le> f (last ?ys)" by simp
  then have K: "?K = f (last ?ys)"
    using mem assms by (intro Max_eqI) auto
  have "last (filter (\<lambda>c. f c = ?K) ?ys) = last ?ys"
    using ne K by (intro last_filter_last) simp_all
  then show ?thesis by (simp add: sort_key_stable)
qed

subsection \<open>Anchor and net activity of a window\<close>

lemma checkpointsInWindow_valid:
  assumes "\<forall>cp\<in>set cps. cp_accountSlug cp = account \<longrightarrow> cp_timestamp cp \<noteq> Malformed"
  shows "\<forall>cp\<in>set (checkpointsInWindow cps account s e). cp_timestamp cp \<noteq> Malformed"
  using assms by (simp add: checkpointsInWindow_def)

lemma effectiveCheckpoint_in_set:
  assumes "cs \<noteq> []"
  shows "effectiveCheckpoint cs \<in> set cs"
proof -
  have "last (sort_key cpTime cs) \<in> set (sort_key cpTime cs)"
    using assms by (intro last_in_set) (metis length_0_conv length_sort)
  then show ?thesis
    using last_sort_key[OF assms, of cpTime] by (simp add: effectiveCheckpoint_def)
qed

lemma resolveAnchor_valid:
  assumes "\<forall>cp\<in>set cps. cp_accountSlug cp = account \<longrightarrow> cp_timestamp cp \<noteq> Malformed"
  shows "resolveAnchor cps P account (Some s) (Some e) = Inr (expectedAnchor cps P account s e)"
proof -
  let ?cs = "checkpointsInWindow cps account s e"
  note v = checkpointsInWindow_valid[OF assms, of s e]
  have f: "filterCheckpointsForWindow cps account (Some s) (Some e) = Inr ?cs"
    by (rule filterCheckpointsForWindow_valid[OF assms])
  have st: "sortIsoStrings ?cs = Inr (sort_key cpTime ?cs)"
    by (rule sortIsoStrings_valid[OF v])
  show ?thesis
  proof (cases "?cs = []")
    case True
    then show ?thesis
      by (simp add: resolveAnchor_def f sortIsoStrings_def toIsoTimestamp_def expectedAnchor_def
            Let_def)
  next
    case False
    have l: "last (sort_key cpTime ?cs) = effectiveCheckpoint ?cs"
      using last_sort_key[OF False, of cpTime] by (simp add: effectiveCheckpoint_def)
    have "effectiveCheckpoint ?cs \<in> set ?cs" by (rule effectiveCheckpoint_in_set[OF False])
    with v have "cp_timestamp (effectiveCheckpoint ?cs) \<noteq> Malformed" by blast
    then have t: "toUtcDate (cp_timestamp (effectiveCheckpoint ?cs))
                    = Inr (cpTime (effectiveCheckpoint ?cs))"
      by (simp add: toUtcDate_valid cpTime_def)
    show ?thesis
      using False
      by (simp add: resolveAnchor_def f st toIsoTimestamp_def expectedAnchor_def l t Let_def)
  qed
qed

lemma expectedAnchor_timestamp:
  assumes "\<forall>cp\<in>set cps. cp_accountSlug cp = account \<longrightarrow> cp_timestamp cp \<noteq> Malformed"
  shows "anchor_timestamp (expectedAnchor cps P account s e) \<noteq> Malformed"
proof (cases "checkpointsInWindow cps account s e = []")
  case True
  then show ?thesis by (simp add: expectedAnchor_def)
next
  case False
  from effectiveCheckpoint_in_set[OF False] checkpointsInWindow_valid[OF assms, of s e]
  have "cp_timestamp (effectiveCheckpoint (checkpointsInWindow cps account s e)) \<noteq> Malformed"
    by blast
  then show ?thesis using False by (simp add: expectedAnchor_def Let_def)
qed

lemma foldl_add_amounts:
  "foldl (\<lambda>sum occ. sum + occ_amount occ) z occs = z + sum_list (map occ_amount occs)"
  by (induction occs arbitrary: z) simp_all

lemma netAfterAnchorOf_valid:
  assumes "\<forall>occ\<in>set occs. occ_accountSlug occ = account \<longrightarrow> occ_timestamp occ \<noteq> Malformed"
    and "anchor_timestamp anc \<noteq> Malformed"
  shows "netAfterAnchorOf anc
           (filter (\<lambda>occ. occ_accountSlug occ = account \<and> s \<le> occTime occ \<and> occTime occ < e) occs)
         = Inr (expectedNet occs account s e anc)"
proof -
  let ?kept = "filter (\<lambda>occ. occ_accountSlug occ = account \<and> s \<le> occTime occ \<and> occTime occ < e) occs"
  have v: "\<forall>occ\<in>set ?kept. occ_timestamp occ \<noteq> Malformed" using assms(1) by simp
  have c: "filter (\<lambda>occ. msOf (anchor_timestamp anc) \<le> occTime occ
                          \<and> \<not> (anchor_source anc = Checkpoint
                                 \<and> occTime occ = msOf (anchor_timestamp anc))) ?kept
           = filter (contributes account s e anc) occs"
    by (induction occs) (auto simp: contributes_def)
  have k: "keepAfterAnchor (msOf (anchor_timestamp anc)) (anchor_source anc) ?kept
             = Inr (filter (contributes account s e anc) occs)"
    by (simp only: keepAfterAnchor_valid[OF v] c)
  show ?thesis
    by (simp add: netAfterAnchorOf_def toUtcDate_valid[OF assms(2)] k foldl_add_amounts
          expectedNet_def)
qed

lemma anchorAndNet_valid:
  assumes "\<forall>occ\<in>set occs. occ_accountSlug occ = account \<longrightarrow> occ_timestamp occ \<noteq> Malformed"
    and "\<forall>cp\<in>set cps. cp_accountSlug cp = account \<longrightarrow> cp_timestamp cp \<noteq> Malformed"
  shows "anchorAndNet occs cps P account (Some s) (Some e) =
           Inr (expectedAnchor cps P account s e,
                expectedNet occs account s e (expectedAnchor cps P account s e))"
  by (simp add: anchorAndNet_def filterOccurrencesForWindow_valid[OF assms(1)]
        resolveAnchor_valid[OF assms(2)]
        netAfterAnchorOf_valid[OF assms(1) expectedAnchor_timestamp[OF assms(2)]])



text \<open>
  Claim C6.  For a window \<open>[s, e)\<close> and an account whose checkpoints have well-formed
  timestamps, the anchor that the code resolves is the one the specification describes
  (\<open>expectedAnchor\<close>): with no checkpoint of the account in the window, the running balance
  (0 when absent) at the window start, with source \<open>Rollforward\<close> when a running balance
  exists and \<open>Initial\<close> otherwise, not interim; otherwise the checkpoint in the window with
  the latest timestamp, the last supplied among equals, with its id and balance, interim
  exactly when it lies strictly after the window start.
\<close>

theorem anchor_resolution:
  assumes "\<forall>cp\<in>set checkpoints. cp_accountSlug cp = account \<longrightarrow> cp_timestamp cp \<noteq> Malformed"
  shows "resolveAnchor checkpoints runningBalance account (Some s) (Some e) =
           Inr (expectedAnchor checkpoints runningBalance account s e)"
  by (rule resolveAnchor_valid[OF assms])

theorem anchor_resolution_witness:
  "wellFormedTimestamps (bp_occurrences literalScenario) (bp_checkpoints literalScenario)
   \<and> resolveAnchor (bp_checkpoints literalScenario) (map_of [(''operating'', 1250)])
         ''operating'' (Some 1735689600000) (Some 1738368000000) =
       Inr (expectedAnchor (bp_checkpoints literalScenario) (map_of [(''operating'', 1250)])
              ''operating'' 1735689600000 1738368000000)"
proof -
  have w: "wellFormedTimestamps (bp_occurrences literalScenario)
             (bp_checkpoints literalScenario)"
    by (simp add: literalScenario_def wellFormedTimestamps_def utcInstant_def)
  then have h: "\<forall>cp\<in>set (bp_checkpoints literalScenario).
             cp_accountSlug cp = ''operating'' \<longrightarrow> cp_timestamp cp \<noteq> Malformed"
    by (simp add: wellFormedTimestamps_def list_all_iff)
  show ?thesis using anchor_resolution[OF h] w by simp
qed

text \<open>
  Claim C5.  For a window \<open>[s, e)\<close> and an account with well-formed timestamps, the net
  activity is the sum of the amounts of the occurrences that contribute: those of the account
  in the half-open window that are not before the anchor and, for a checkpoint anchor, not
  at its very instant.  The cell that the monthly pass and the weekly pass store has this
  net activity, begins at the anchor balance and ends at anchor balance plus net activity,
  which is also the new running balance of the account.
\<close>

theorem net_after_anchor:
  assumes "\<forall>occ\<in>set occurrences. occ_accountSlug occ = account \<longrightarrow> occ_timestamp occ \<noteq> Malformed"
    and "\<forall>cp\<in>set checkpoints. cp_accountSlug cp = account \<longrightarrow> cp_timestamp cp \<noteq> Malformed"
  shows "\<exists>anc net.
           resolveAnchor checkpoints runningBalance account (Some s) (Some e) = Inr anc
           \<and> anchorAndNet occurrences checkpoints runningBalance account (Some s) (Some e)
               = Inr (anc, net)
           \<and> net = sum_list (map occ_amount (filter (contributes account s e anc) occurrences))
           \<and> monthAccounts occurrences checkpoints m (Some s) (Some e) [account]
                 (monthCells, runningBalance)
               = Inr (AList.update account
                        \<lparr> ym = m, accountSlug = account, beginningBalance = anchor_balance anc,
                          balance = anchor_balance anc + net, netAfterAnchor = net,
                          anchor = anc \<rparr> monthCells,
                      runningBalance(account \<mapsto> anchor_balance anc + net))
           \<and> weekAccounts occurrences checkpoints m
                 \<lparr> week_start = s, week_end = e, week_weekKey = key \<rparr> [account]
                 (weekCells, runningBalance)
               = Inr (AList.update account
                        \<lparr> ym = m, accountSlug = account, beginningBalance = anchor_balance anc,
                          balance = anchor_balance anc + net, netAfterAnchor = net,
                          anchor = anc, weekKey = key \<rparr> weekCells,
                      runningBalance(account \<mapsto> anchor_balance anc + net))"
proof (intro exI conjI)
  let ?anc = "expectedAnchor checkpoints runningBalance account s e"
  let ?net = "expectedNet occurrences account s e ?anc"
  show "resolveAnchor checkpoints runningBalance account (Some s) (Some e) = Inr ?anc"
    by (rule resolveAnchor_valid[OF assms(2)])
  show "anchorAndNet occurrences checkpoints runningBalance account (Some s) (Some e)
          = Inr (?anc, ?net)"
    by (rule anchorAndNet_valid[OF assms])
  show "?net = sum_list (map occ_amount (filter (contributes account s e ?anc) occurrences))"
    by (simp add: expectedNet_def)
  show "monthAccounts occurrences checkpoints m (Some s) (Some e) [account]
                 (monthCells, runningBalance)
               = Inr (AList.update account
                        \<lparr> ym = m, accountSlug = account, beginningBalance = anchor_balance ?anc,
                          balance = anchor_balance ?anc + ?net, netAfterAnchor = ?net,
                          anchor = ?anc \<rparr> monthCells,
                      runningBalance(account \<mapsto> anchor_balance ?anc + ?net))"
    by (simp add: anchorAndNet_valid[OF assms] Let_def)
  show "weekAccounts occurrences checkpoints m
                 \<lparr> week_start = s, week_end = e, week_weekKey = key \<rparr> [account]
                 (weekCells, runningBalance)
               = Inr (AList.update account
                        \<lparr> ym = m, accountSlug = account, beginningBalance = anchor_balance ?anc,
                          balance = anchor_balance ?anc + ?net, netAfterAnchor = ?net,
                          anchor = ?anc, weekKey = key \<rparr> weekCells,
                      runningBalance(account \<mapsto> anchor_balance ?anc + ?net))"
    by (simp add: anchorAndNet_valid[OF assms] Let_def)
qed

theorem net_after_anchor_witness:
  "wellFormedTimestamps (bp_occurrences literalScenario) (bp_checkpoints literalScenario)
   \<and> (\<exists>anc net.
         anchorAndNet (bp_occurrences literalScenario) (bp_checkpoints literalScenario)
             (map_of [(''operating'', 1250)]) ''operating''
             (Some 1735689600000) (Some 1738368000000)
           = Inr (anc, net)
         \<and> net = sum_list (map occ_amount
                   (filter (contributes ''operating'' 1735689600000 1738368000000 anc)
                      (bp_occurrences literalScenario))))"
proof -
  have w: "wellFormedTimestamps (bp_occurrences literalScenario)
             (bp_checkpoints literalScenario)"
    by (simp add: literalScenario_def wellFormedTimestamps_def utcInstant_def)
  then have h1: "\<forall>occ\<in>set (bp_occurrences literalScenario).
       occ_accountSlug occ = ''operating'' \<longrightarrow> occ_timestamp occ \<noteq> Malformed"
    and h2: "\<forall>cp\<in>set (bp_checkpoints literalScenario).
             cp_accountSlug cp = ''operating'' \<longrightarrow> cp_timestamp cp \<noteq> Malformed"
    by (simp_all add: wellFormedTimestamps_def list_all_iff)
  from net_after_anchor[OF h1 h2, of "map_of [(''operating'', 1250)]" 1735689600000
         1738368000000 "''2025-01''" "[]" "IsoDate 0" "[]"]
  obtain anc net where
    "anchorAndNet (bp_occurrences literalScenario) (bp_checkpoints literalScenario)
             (map_of [(''operating'', 1250)]) ''operating''
             (Some 1735689600000) (Some 1738368000000)
           = Inr (anc, net)"
    "net = sum_list (map occ_amount
                   (filter (contributes ''operating'' 1735689600000 1738368000000 anc)
                      (bp_occurrences literalScenario)))"
    by (elim exE conjE)
  then show ?thesis using w by (intro conjI exI[of _ anc] exI[of _ net])
qed

subsection \<open>The loop over accounts\<close>








subsection \<open>Splitting a window in two\<close>



lemma effectiveCheckpoint_max:
  assumes "cs \<noteq> []"
  shows "cpTime (effectiveCheckpoint cs) = Max (set (map cpTime cs))"
proof -
  let ?K = "Max (set (map cpTime cs))"
  have "?K \<in> set (map cpTime cs)" using assms by (intro Max_in) simp_all
  then have ne: "filter (\<lambda>cp. cpTime cp = ?K) cs \<noteq> []"
    by (auto simp: filter_empty_conv)
  from last_in_set[OF ne] show ?thesis by (simp add: effectiveCheckpoint_def)
qed












subsection \<open>The weekly pass against the monthly pass\<close>















end
